theory Spec2Isabelle
  imports Main
begin

section \<open>Data model\<close>

text \<open>
  \<^verbatim>\<open>models.Choice\<close> and \<^verbatim>\<open>models.Question\<close> (models.py): the rows the store
  hands out. Identifiers are Python integers (unbounded), texts are strings, as the
  result schema requires of them; a question carries the choices loaded with it by
  \<^verbatim>\<open>joinedload\<close>, in the order the store returned them.
\<close>

record choice =
  choice_id :: int
  choice_text :: string
  choice_is_correct :: bool
  choice_question_id :: int

record question =
  question_id :: int
  question_text :: string
  question_choices :: "choice list"

text \<open>
  The database session, as far as the grader sees it: the table of questions that
  \<^verbatim>\<open>db.query(models.Question)...all()\<close> returns.
\<close>

record session =
  session_questions :: "question list"

text \<open>\<^verbatim>\<open>schemas.UserAnswer\<close>, \<^verbatim>\<open>schemas.AnswerPayload\<close>, \<^verbatim>\<open>schemas.QuestionResult\<close>
  and \<^verbatim>\<open>schemas.QuizResult\<close> (schemas.py).\<close>

record user_answer =
  ua_question_id :: int
  ua_choice_id :: int

record answer_payload =
  answers :: "user_answer list"

record question_result =
  qr_question_id :: int
  qr_question_text :: string
  qr_user_answer_text :: string
  qr_correct_answer_text :: string
  qr_is_correct :: bool

record quiz_result =
  score :: int
  total :: int
  results :: "question_result list"

text \<open>
  The response schemas \<^verbatim>\<open>schemas.Choice\<close> (fields \<^verbatim>\<open>text\<close>, \<^verbatim>\<open>id\<close>) and
  \<^verbatim>\<open>schemas.Question\<close> (fields \<^verbatim>\<open>text\<close>, \<^verbatim>\<open>id\<close>, \<^verbatim>\<open>choices\<close>), both read
  from the attributes of the row of the same name (\<^verbatim>\<open>from_attributes=True\<close>).
\<close>

record schema_choice =
  sc_text :: string
  sc_id :: int

record schema_question =
  sq_text :: string
  sq_id :: int
  sq_choices :: "schema_choice list"

section \<open>crud.py\<close>

text \<open>\<^verbatim>\<open>get_questions\<close>: a read of the session; the session is handed back as it was.\<close>

definition get_questions :: "session \<Rightarrow> question list \<times> session" where
  "get_questions db = (session_questions db, db)"

text \<open>
  The dict comprehension \<^verbatim>\<open>{answer.question_id: answer.choice_id for answer in ...}\<close>:
  the answers are inserted from left to right, a later key overwriting an earlier one.
\<close>

definition user_answers_map_of :: "user_answer list \<Rightarrow> (int \<rightharpoonup> int)" where
  "user_answers_map_of as =
     fold (\<lambda>answer m. m(ua_question_id answer \<mapsto> ua_choice_id answer)) as Map.empty"

text \<open>
  The inner loop of the answer key: store the id of the first choice flagged correct
  under the question's id and \<^verbatim>\<open>break\<close>; leave the key as it is when there is none.
\<close>

fun scan_choices :: "int \<Rightarrow> choice list \<Rightarrow> (int \<rightharpoonup> int) \<Rightarrow> (int \<rightharpoonup> int)" where
  "scan_choices qid [] answer_key = answer_key"
| "scan_choices qid (c # cs) answer_key =
     (if choice_is_correct c then answer_key(qid \<mapsto> choice_id c)
      else scan_choices qid cs answer_key)"

definition answer_key_of :: "question list \<Rightarrow> (int \<rightharpoonup> int)" where
  "answer_key_of all_questions =
     fold (\<lambda>q answer_key. scan_choices (question_id q) (question_choices q) answer_key)
       all_questions Map.empty"

text \<open>
  The loop that finds the two display texts. It has no \<^verbatim>\<open>break\<close>: every choice is
  compared, and a later match overwrites an earlier one. \<^verbatim>\<open>choice.id == None\<close> is false.
\<close>

definition text_step ::
  "int option \<Rightarrow> int option \<Rightarrow> choice \<Rightarrow> string \<times> string \<Rightarrow> string \<times> string" where
  "text_step user_choice_id correct_choice_id c ts =
     (case ts of (user_answer_text, correct_answer_text) \<Rightarrow>
        (if Some (choice_id c) = user_choice_id then choice_text c else user_answer_text,
         if Some (choice_id c) = correct_choice_id then choice_text c else correct_answer_text))"

definition answer_texts :: "int option \<Rightarrow> int option \<Rightarrow> choice list \<Rightarrow> string \<times> string" where
  "answer_texts user_choice_id correct_choice_id cs =
     fold (text_step user_choice_id correct_choice_id) cs (''Unanswered'', '''')"

text \<open>One iteration of the main loop, on the running score and the results so far.\<close>

definition grade_step ::
  "(int \<rightharpoonup> int) \<Rightarrow> (int \<rightharpoonup> int) \<Rightarrow> question \<Rightarrow> int \<times> question_result list
     \<Rightarrow> int \<times> question_result list" where
  "grade_step user_answers_map answer_key q st =
     (case st of (sc, detailed_results) \<Rightarrow>
        let user_choice_id = user_answers_map (question_id q);
            correct_choice_id = answer_key (question_id q);
            is_correct = (user_choice_id \<noteq> None \<and> user_choice_id = correct_choice_id);
            sc' = (if is_correct then sc + 1 else sc);
            ts = answer_texts user_choice_id correct_choice_id (question_choices q)
        in (sc', detailed_results @
              [\<lparr>qr_question_id = question_id q,
                qr_question_text = question_text q,
                qr_user_answer_text = fst ts,
                qr_correct_answer_text = snd ts,
                qr_is_correct = is_correct\<rparr>]))"

text \<open>
  \<^verbatim>\<open>calculate_score\<close>. Besides the quiz result it returns the session and the payload as
  they stand when the function returns, so that what the function does to its arguments
  is part of its value.
\<close>

definition calculate_score ::
  "session \<Rightarrow> answer_payload \<Rightarrow> quiz_result \<times> session \<times> answer_payload" where
  "calculate_score db user_answers =
     (case get_questions db of (all_questions, db') \<Rightarrow>
        let user_answers_map = user_answers_map_of (answers user_answers);
            answer_key = answer_key_of all_questions;
            st = fold (grade_step user_answers_map answer_key) all_questions (0, [])
        in (\<lparr>score = fst st, total = int (length all_questions), results = snd st\<rparr>,
            db', user_answers))"

text \<open>The grader of the specification: \<open>grade Q S\<close> is the quiz result of
  \<^verbatim>\<open>calculate_score\<close> on a store holding \<open>Q\<close> and a payload holding \<open>S\<close>.\<close>

abbreviation grade :: "question list \<Rightarrow> user_answer list \<Rightarrow> quiz_result" where
  "grade Q S \<equiv> fst (calculate_score \<lparr>session_questions = Q\<rparr> \<lparr>answers = S\<rparr>)"

section \<open>main.py: the safe view\<close>

text \<open>
  \<^verbatim>\<open>read_questions\<close> returns the rows of \<^verbatim>\<open>get_questions\<close> through the response model
  \<^verbatim>\<open>List[schemas.Question]\<close>: each row is read into the schema's fields.
\<close>

definition to_schema_choice :: "choice \<Rightarrow> schema_choice" where
  "to_schema_choice c = \<lparr>sc_text = choice_text c, sc_id = choice_id c\<rparr>"

definition to_schema_question :: "question \<Rightarrow> schema_question" where
  "to_schema_question q =
     \<lparr>sq_text = question_text q, sq_id = question_id q,
      sq_choices = map to_schema_choice (question_choices q)\<rparr>"

definition read_questions :: "session \<Rightarrow> schema_question list" where
  "read_questions db = map to_schema_question (fst (get_questions db))"

section \<open>Auxiliary notions\<close>

text \<open>
  The record that one iteration of the main loop appends, written as a function of the
  two lookups and the question. It is related to \<^const>\<open>grade_step\<close> by lemma
  \<open>grade_step_result_of\<close> below and is used in proofs only.
\<close>

definition result_of :: "(int \<rightharpoonup> int) \<Rightarrow> (int \<rightharpoonup> int) \<Rightarrow> question \<Rightarrow> question_result" where
  "result_of user_answers_map answer_key q =
     \<lparr>qr_question_id = question_id q,
      qr_question_text = question_text q,
      qr_user_answer_text =
        fst (answer_texts (user_answers_map (question_id q)) (answer_key (question_id q))
               (question_choices q)),
      qr_correct_answer_text =
        snd (answer_texts (user_answers_map (question_id q)) (answer_key (question_id q))
               (question_choices q)),
      qr_is_correct =
        (user_answers_map (question_id q) \<noteq> None \<and>
         user_answers_map (question_id q) = answer_key (question_id q))\<rparr>"

text \<open>
  A question with every \<^verbatim>\<open>is_correct\<close> flag of its choices erased. Two question sets
  differ only in their flags when they agree after erasing them.
\<close>

definition clear_flags :: "question \<Rightarrow> question" where
  "clear_flags q =
     q\<lparr>question_choices := map (\<lambda>c. c\<lparr>choice_is_correct := False\<rparr>) (question_choices q)\<rparr>"

text \<open>
  What a question makes public: its id, its text, and the id and text of each of its
  choices, in order.
\<close>

definition public_part :: "question \<Rightarrow> int \<times> string \<times> (int \<times> string) list" where
  "public_part q =
     (question_id q, question_text q,
      map (\<lambda>c. (choice_id c, choice_text c)) (question_choices q))"

text \<open>
  A small store and a submission on which the theorems are exercised: question 1 has two
  choices flagged correct (2 and 3), question 2 has none; the submission answers question 1
  twice, answers question 2 with a choice of question 1, and answers a question 7 that the
  store does not have.
\<close>

definition example_questions :: "question list" where
  "example_questions =
     [\<lparr>question_id = 1, question_text = ''Q1'', question_choices =
         [\<lparr>choice_id = 1, choice_text = ''A'', choice_is_correct = False, choice_question_id = 1\<rparr>,
          \<lparr>choice_id = 2, choice_text = ''B'', choice_is_correct = True, choice_question_id = 1\<rparr>,
          \<lparr>choice_id = 3, choice_text = ''C'', choice_is_correct = True, choice_question_id = 1\<rparr>]\<rparr>,
      \<lparr>question_id = 2, question_text = ''Q2'', question_choices =
         [\<lparr>choice_id = 4, choice_text = ''D'', choice_is_correct = False, choice_question_id = 2\<rparr>,
          \<lparr>choice_id = 5, choice_text = ''E'', choice_is_correct = False, choice_question_id = 2\<rparr>]\<rparr>]"

definition example_answers :: "user_answer list" where
  "example_answers =
     [\<lparr>ua_question_id = 1, ua_choice_id = 3\<rparr>,
      \<lparr>ua_question_id = 2, ua_choice_id = 2\<rparr>,
      \<lparr>ua_question_id = 7, ua_choice_id = 1\<rparr>,
      \<lparr>ua_question_id = 1, ua_choice_id = 2\<rparr>]"

section \<open>The lookups\<close>

text \<open>What the answer map holds under a key, for any map the insertions start from.\<close>

lemma user_answers_fold:
  "fold (\<lambda>answer m. m(ua_question_id answer \<mapsto> ua_choice_id answer)) as m0 k =
     (if filter (\<lambda>a. ua_question_id a = k) as = [] then m0 k
      else Some (ua_choice_id (last (filter (\<lambda>a. ua_question_id a = k) as))))"
  by (induction as rule: rev_induct) simp_all

lemma scan_choices_at:
  "scan_choices qid cs ak k =
     (if k = qid then (case find choice_is_correct cs of None \<Rightarrow> ak k | Some c \<Rightarrow> Some (choice_id c))
      else ak k)"
  by (induction cs) auto

lemma answer_key_fold_other:
  "k \<notin> question_id ` set Q \<Longrightarrow>
   fold (\<lambda>q answer_key. scan_choices (question_id q) (question_choices q) answer_key) Q ak k = ak k"
proof (induction Q arbitrary: ak)
  case Nil
  show ?case by simp
next
  case (Cons p Q)
  from Cons.prems have ne: "k \<noteq> question_id p" and rest: "k \<notin> question_id ` set Q" by auto
  have "fold (\<lambda>q answer_key. scan_choices (question_id q) (question_choices q) answer_key) (p # Q) ak k
        = scan_choices (question_id p) (question_choices p) ak k"
    using Cons.IH [OF rest] by simp
  also have "\<dots> = ak k" using ne by (subst scan_choices_at) simp
  finally show ?case .
qed

lemma answer_key_fold_own:
  "distinct (map question_id Q) \<Longrightarrow> q \<in> set Q \<Longrightarrow>
   fold (\<lambda>q answer_key. scan_choices (question_id q) (question_choices q) answer_key) Q ak (question_id q) =
     (case find choice_is_correct (question_choices q) of
        None \<Rightarrow> ak (question_id q) | Some c \<Rightarrow> Some (choice_id c))"
proof (induction Q arbitrary: ak)
  case Nil
  then show ?case by simp
next
  case (Cons p Q)
  let ?f = "\<lambda>q answer_key. scan_choices (question_id q) (question_choices q) answer_key"
  show ?case
  proof (cases "p = q")
    case True
    with Cons.prems have "question_id q \<notin> question_id ` set Q" by auto
    then have "fold ?f (p # Q) ak (question_id q)
        = scan_choices (question_id q) (question_choices q) ak (question_id q)"
      using True by (simp add: answer_key_fold_other)
    then show ?thesis by (subst (asm) scan_choices_at) simp
  next
    case False
    with Cons.prems have in_Q: "q \<in> set Q" and d: "distinct (map question_id Q)"
      and ne: "question_id p \<noteq> question_id q" by auto
    have "scan_choices (question_id p) (question_choices p) ak (question_id q) = ak (question_id q)"
      using ne by (subst scan_choices_at) simp
    then show ?thesis using Cons.IH [OF d in_Q, of "scan_choices (question_id p) (question_choices p) ak"]
      by (simp split: option.split)
  qed
qed

lemma answer_key_of_own:
  "distinct (map question_id Q) \<Longrightarrow> q \<in> set Q \<Longrightarrow>
   answer_key_of Q (question_id q) = map_option choice_id (find choice_is_correct (question_choices q))"
  unfolding answer_key_of_def by (simp add: answer_key_fold_own split: option.split)

section \<open>The two loops over a question\<close>

lemma text_step_pair:
  "text_step uc cc c (u, t) =
     (if Some (choice_id c) = uc then choice_text c else u,
      if Some (choice_id c) = cc then choice_text c else t)"
  by (simp add: text_step_def)

lemma text_fold_user_miss:
  "\<forall>c \<in> set cs. Some (choice_id c) \<noteq> uc \<Longrightarrow> fst (fold (text_step uc cc) cs (u, t)) = u"
  by (induction cs arbitrary: u t) (simp_all add: text_step_pair)

lemma text_fold_correct_miss:
  "\<forall>c \<in> set cs. Some (choice_id c) \<noteq> cc \<Longrightarrow> snd (fold (text_step uc cc) cs (u, t)) = t"
  by (induction cs arbitrary: u t) (simp_all add: text_step_pair)

lemma text_fold_user_hit:
  "distinct (map choice_id cs) \<Longrightarrow> c \<in> set cs \<Longrightarrow>
   fst (fold (text_step (Some (choice_id c)) cc) cs (u, t)) = choice_text c"
proof (induction cs arbitrary: u t)
  case Nil
  then show ?case by simp
next
  case (Cons d cs)
  show ?case
  proof (cases "d = c")
    case True
    with Cons.prems have "\<forall>e \<in> set cs. Some (choice_id e) \<noteq> Some (choice_id c)"
      by (auto simp: image_iff)
    then show ?thesis using True by (simp add: text_step_pair text_fold_user_miss)
  next
    case False
    with Cons.prems have "c \<in> set cs" "distinct (map choice_id cs)" by auto
    then show ?thesis using Cons.IH by (simp add: text_step_pair)
  qed
qed

lemma text_fold_correct_hit:
  "distinct (map choice_id cs) \<Longrightarrow> c \<in> set cs \<Longrightarrow>
   snd (fold (text_step uc (Some (choice_id c))) cs (u, t)) = choice_text c"
proof (induction cs arbitrary: u t)
  case Nil
  then show ?case by simp
next
  case (Cons d cs)
  show ?case
  proof (cases "d = c")
    case True
    with Cons.prems have "\<forall>e \<in> set cs. Some (choice_id e) \<noteq> Some (choice_id c)"
      by (auto simp: image_iff)
    then show ?thesis using True by (simp add: text_step_pair text_fold_correct_miss)
  next
    case False
    with Cons.prems have "c \<in> set cs" "distinct (map choice_id cs)" by auto
    then show ?thesis using Cons.IH by (simp add: text_step_pair)
  qed
qed

lemma grade_step_result_of:
  "grade_step uam ak q (sc, rs) =
     (if qr_is_correct (result_of uam ak q) then sc + 1 else sc, rs @ [result_of uam ak q])"
  by (simp add: grade_step_def result_of_def Let_def)

lemma fold_grade_step:
  "fold (grade_step uam ak) Q (sc, rs) =
     (sc + int (length (filter (\<lambda>q. qr_is_correct (result_of uam ak q)) Q)),
      rs @ map (result_of uam ak) Q)"
  by (induction Q arbitrary: sc rs) (simp_all add: grade_step_result_of)

lemma grade_eq:
  "grade Q S =
     \<lparr>score = int (length (filter (\<lambda>q. qr_is_correct
                (result_of (user_answers_map_of S) (answer_key_of Q) q)) Q)),
      total = int (length Q),
      results = map (result_of (user_answers_map_of S) (answer_key_of Q)) Q\<rparr>"
  by (simp add: calculate_score_def get_questions_def Let_def fold_grade_step)

lemma find_Some_mem: "find P xs = Some x \<Longrightarrow> x \<in> set xs \<and> P x"
  by (induction xs) (auto split: if_splits)

lemma user_answers_map_of_last:
  "user_answers_map_of S k =
     (if filter (\<lambda>a. ua_question_id a = k) S = [] then None
      else Some (ua_choice_id (last (filter (\<lambda>a. ua_question_id a = k) S))))"
  unfolding user_answers_map_of_def by (simp add: user_answers_fold)

lemma user_answers_map_of_filter:
  assumes "P k"
  shows "user_answers_map_of (filter (\<lambda>a. P (ua_question_id a)) S) k = user_answers_map_of S k"
proof -
  have "filter (\<lambda>a. ua_question_id a = k) (filter (\<lambda>a. P (ua_question_id a)) S)
        = filter (\<lambda>a. ua_question_id a = k) S"
    using assms by (auto intro: filter_cong)
  then show ?thesis by (simp only: user_answers_map_of_last)
qed

lemma result_of_cong:
  "uam (question_id q) = uam' (question_id q) \<Longrightarrow> result_of uam ak q = result_of uam' ak q"
  by (simp add: result_of_def)

lemma submitted_is_key_iff:
  "(u \<noteq> None \<and> u = m) \<longleftrightarrow> (\<exists>cid. u = Some cid \<and> m = Some cid)"
  by (cases u) auto

lemma submitted_is_mapped:
  "u \<noteq> None \<Longrightarrow> u = map_option f x \<Longrightarrow> \<exists>c. x = Some c \<and> u = Some (f c)"
  by (cases x) auto

lemma result_of_is_correct:
  "qr_is_correct (result_of uam ak q) \<longleftrightarrow>
     (uam (question_id q) \<noteq> None \<and> uam (question_id q) = ak (question_id q))"
  by (simp add: result_of_def)

lemma results_nth:
  "i < length Q \<Longrightarrow>
   results (grade Q S) ! i = result_of (user_answers_map_of S) (answer_key_of Q) (Q ! i)"
  by (simp add: grade_eq)

text \<open>
  The two uniqueness hypotheses used below are the primary keys of models.py
  (\<^verbatim>\<open>Question.id\<close>, \<^verbatim>\<open>Choice.id\<close>). Lists that break them are not snapshots of a store,
  and on them the code behaves differently: with a question id shared by two questions
  the answer key of the later one serves both, and with a choice id repeated inside a
  question the display text is that of the last choice carrying it.
\<close>

lemma shared_question_id_example:
  "qr_is_correct (results (grade
      [\<lparr>question_id = 1, question_text = ''Q1'', question_choices =
          [\<lparr>choice_id = 1, choice_text = ''A'', choice_is_correct = False, choice_question_id = 1\<rparr>]\<rparr>,
       \<lparr>question_id = 1, question_text = ''Q1b'', question_choices =
          [\<lparr>choice_id = 1, choice_text = ''A'', choice_is_correct = True, choice_question_id = 1\<rparr>]\<rparr>]
      [\<lparr>ua_question_id = 1, ua_choice_id = 1\<rparr>]) ! 0)"
  by (simp add: grade_eq result_of_def user_answers_map_of_def answer_key_of_def)

lemma repeated_choice_id_example:
  "qr_user_answer_text (results (grade
      [\<lparr>question_id = 1, question_text = ''Q1'', question_choices =
          [\<lparr>choice_id = 1, choice_text = ''A'', choice_is_correct = True, choice_question_id = 1\<rparr>,
           \<lparr>choice_id = 1, choice_text = ''B'', choice_is_correct = False, choice_question_id = 1\<rparr>]\<rparr>]
      [\<lparr>ua_question_id = 1, ua_choice_id = 1\<rparr>]) ! 0) = ''B''"
  by (simp add: grade_eq result_of_def user_answers_map_of_def answer_key_of_def
        answer_texts_def text_step_pair)

section \<open>Properties of the grader\<close>

text \<open>
  Claim C1. For every question set \<open>Q\<close> and submission \<open>S\<close>, the total is the number of
  questions, and the results are one per question, in the order of \<open>Q\<close>: the list has the
  length of \<open>Q\<close>, and its question ids and question texts are those of \<open>Q\<close>, position by
  position.
\<close>

theorem grade_total_and_order:
  "total (grade Q S) = int (length Q) \<and>
   length (results (grade Q S)) = length Q \<and>
   map qr_question_id (results (grade Q S)) = map question_id Q \<and>
   map qr_question_text (results (grade Q S)) = map question_text Q"
  by (simp add: grade_eq result_of_def comp_def)

text \<open>
  Claim C2. For every question set and submission the score lies between 0 and the
  number of questions.
\<close>

theorem grade_score_bounds:
  "0 \<le> score (grade Q S) \<and> score (grade Q S) \<le> int (length Q)"
  by (simp add: grade_eq)

text \<open>
  Claim C3. In a store whose question ids are unique, take the question at position \<open>i\<close>
  and the choice id the answer map holds for it. If there is none, or it is the id of no
  choice of that question (so also when it is a choice of another question), the result at
  position \<open>i\<close> shows \<^verbatim>\<open>"Unanswered"\<close> and is not correct. The result is correct exactly
  when a submitted choice id exists and is the id of the question's first choice flagged
  correct.
\<close>

theorem unanswered_and_correctness:
  assumes "distinct (map question_id Q)" and "i < length Q"
  shows "((user_answers_map_of S (question_id (Q ! i)) = None \<or>
           (\<forall>c \<in> set (question_choices (Q ! i)).
              Some (choice_id c) \<noteq> user_answers_map_of S (question_id (Q ! i))))
          \<longrightarrow> qr_user_answer_text (results (grade Q S) ! i) = ''Unanswered'' \<and>
              \<not> qr_is_correct (results (grade Q S) ! i)) \<and>
         (qr_is_correct (results (grade Q S) ! i) \<longleftrightarrow>
            (\<exists>cid. user_answers_map_of S (question_id (Q ! i)) = Some cid \<and>
                   map_option choice_id (find choice_is_correct (question_choices (Q ! i)))
                     = Some cid))"
proof -
  let ?q = "Q ! i"
  let ?uc = "user_answers_map_of S (question_id ?q)"
  let ?r = "results (grade Q S) ! i"
  from assms have mem: "?q \<in> set Q" by simp
  have key: "answer_key_of Q (question_id ?q)
             = map_option choice_id (find choice_is_correct (question_choices ?q))"
    using assms(1) mem by (rule answer_key_of_own)
  have r: "?r = result_of (user_answers_map_of S) (answer_key_of Q) ?q"
    using assms(2) by (rule results_nth)
  have corr: "qr_is_correct ?r \<longleftrightarrow>
      (\<exists>cid. ?uc = Some cid \<and>
         map_option choice_id (find choice_is_correct (question_choices ?q)) = Some cid)"
    unfolding r result_of_is_correct key by (rule submitted_is_key_iff)
  have miss: "qr_user_answer_text ?r = ''Unanswered'' \<and> \<not> qr_is_correct ?r"
    if none: "\<forall>c \<in> set (question_choices ?q). Some (choice_id c) \<noteq> ?uc"
  proof
    show "qr_user_answer_text ?r = ''Unanswered''"
      unfolding r using none by (simp add: result_of_def answer_texts_def text_fold_user_miss)
    show "\<not> qr_is_correct ?r"
    proof
      assume "qr_is_correct ?r"
      then obtain cid where u: "?uc = Some cid"
        and f: "map_option choice_id (find choice_is_correct (question_choices ?q)) = Some cid"
        using corr by blast
      from f obtain c where "find choice_is_correct (question_choices ?q) = Some c"
        and "choice_id c = cid" by auto
      then have "c \<in> set (question_choices ?q)" and "Some (choice_id c) = ?uc"
        using u by (auto dest: find_Some_mem)
      with none show False by blast
    qed
  qed
  have "qr_user_answer_text ?r = ''Unanswered'' \<and> \<not> qr_is_correct ?r"
    if "?uc = None \<or> (\<forall>c \<in> set (question_choices ?q). Some (choice_id c) \<noteq> ?uc)"
    using that miss by auto
  with corr show ?thesis by blast
qed

theorem unanswered_and_correctness_witness:
  "distinct (map question_id example_questions) \<and> (1::nat) < length example_questions \<and>
   qr_user_answer_text (results (grade example_questions example_answers) ! 1) = ''Unanswered'' \<and>
   \<not> qr_is_correct (results (grade example_questions example_answers) ! 1) \<and>
   qr_is_correct (results (grade example_questions example_answers) ! 0)"
  using unanswered_and_correctness [of example_questions 1 example_answers]
    unanswered_and_correctness [of example_questions 0 example_answers]
  by (simp add: example_questions_def example_answers_def user_answers_map_of_def)

text \<open>
  Claim C4. In a store whose question ids are unique, the answer key of a question is the
  id of the first of its choices, in stored order, that is flagged correct. When no choice
  is flagged, the key has no entry for the question, the result's correct-answer text is
  empty and the result is not correct, whatever was submitted.
\<close>

theorem first_correct_choice_is_key:
  assumes "distinct (map question_id Q)" and "i < length Q"
  shows "answer_key_of Q (question_id (Q ! i))
           = map_option choice_id (find choice_is_correct (question_choices (Q ! i))) \<and>
         ((\<forall>c \<in> set (question_choices (Q ! i)). \<not> choice_is_correct c) \<longrightarrow>
            answer_key_of Q (question_id (Q ! i)) = None \<and>
            qr_correct_answer_text (results (grade Q S) ! i) = '''' \<and>
            \<not> qr_is_correct (results (grade Q S) ! i))"
proof -
  let ?q = "Q ! i"
  from assms have mem: "?q \<in> set Q" by simp
  have key: "answer_key_of Q (question_id ?q)
             = map_option choice_id (find choice_is_correct (question_choices ?q))"
    using assms(1) mem by (rule answer_key_of_own)
  have r: "results (grade Q S) ! i = result_of (user_answers_map_of S) (answer_key_of Q) ?q"
    using assms(2) by (rule results_nth)
  have "answer_key_of Q (question_id ?q) = None \<and>
        qr_correct_answer_text (results (grade Q S) ! i) = '''' \<and>
        \<not> qr_is_correct (results (grade Q S) ! i)"
    if none: "\<forall>c \<in> set (question_choices ?q). \<not> choice_is_correct c"
  proof -
    from none have "find choice_is_correct (question_choices ?q) = None"
      by (simp add: find_None_iff)
    with key have k: "answer_key_of Q (question_id ?q) = None" by simp
    show ?thesis unfolding r
      by (auto simp: k result_of_def answer_texts_def text_fold_correct_miss)
  qed
  with key show ?thesis by blast
qed

theorem first_correct_choice_is_key_witness:
  "distinct (map question_id example_questions) \<and> (1::nat) < length example_questions \<and>
   answer_key_of example_questions 1 = Some 2 \<and>
   answer_key_of example_questions 2 = None \<and>
   qr_correct_answer_text (results (grade example_questions example_answers) ! 1) = '''' \<and>
   \<not> qr_is_correct (results (grade example_questions example_answers) ! 1)"
  using first_correct_choice_is_key [of example_questions 1 example_answers]
    first_correct_choice_is_key [of example_questions 0 example_answers]
  by (simp add: example_questions_def)

text \<open>
  Claim C5. Grading the empty submission: every result shows \<^verbatim>\<open>"Unanswered"\<close> and is not
  correct, and the score is 0; on the empty store the quiz result is
  \<^verbatim>\<open>{score: 0, total: 0, results: []}\<close>.
\<close>

theorem empty_submission:
  "(\<forall>r \<in> set (results (grade Q [])).
      qr_user_answer_text r = ''Unanswered'' \<and> \<not> qr_is_correct r) \<and>
   score (grade Q []) = 0 \<and>
   grade [] [] = \<lparr>score = 0, total = 0, results = []\<rparr>"
  by (simp add: grade_eq result_of_def user_answers_map_of_def answer_texts_def
        text_fold_user_miss)

theorem empty_submission_witness:
  "qr_user_answer_text (results (grade example_questions []) ! 0) = ''Unanswered'' \<and>
   \<not> qr_is_correct (results (grade example_questions []) ! 0) \<and>
   qr_user_answer_text (results (grade example_questions []) ! 1) = ''Unanswered'' \<and>
   \<not> qr_is_correct (results (grade example_questions []) ! 1) \<and>
   score (grade example_questions []) = 0"
  using empty_submission [of example_questions]
  by (simp add: grade_eq example_questions_def)

text \<open>
  Claim C6. The answer map keeps one choice per question id: none when the submission
  does not mention the id, and otherwise the choice of the last answer, in submission
  order, that carries the id.
\<close>

theorem last_answer_wins:
  "user_answers_map_of S k =
     (if filter (\<lambda>a. ua_question_id a = k) S = [] then None
      else Some (ua_choice_id (last (filter (\<lambda>a. ua_question_id a = k) S))))"
  by (rule user_answers_map_of_last)

text \<open>
  Claim C9. In a store whose question ids are unique, for a question whose choice ids are
  unique: when the result is correct, the question has a first choice flagged correct, and
  the user-answer text and the correct-answer text are both the text of that choice.
\<close>

theorem correct_result_texts:
  assumes "distinct (map question_id Q)" and "i < length Q"
    and "distinct (map choice_id (question_choices (Q ! i)))"
    and "qr_is_correct (results (grade Q S) ! i)"
  shows "\<exists>c. find choice_is_correct (question_choices (Q ! i)) = Some c \<and>
             qr_user_answer_text (results (grade Q S) ! i) = choice_text c \<and>
             qr_correct_answer_text (results (grade Q S) ! i) = choice_text c"
proof -
  let ?q = "Q ! i"
  from assms have mem: "?q \<in> set Q" by simp
  have key: "answer_key_of Q (question_id ?q)
             = map_option choice_id (find choice_is_correct (question_choices ?q))"
    using assms(1) mem by (rule answer_key_of_own)
  have r: "results (grade Q S) ! i = result_of (user_answers_map_of S) (answer_key_of Q) ?q"
    using assms(2) by (rule results_nth)
  from assms(4) have "user_answers_map_of S (question_id ?q) \<noteq> None \<and>
      user_answers_map_of S (question_id ?q)
        = map_option choice_id (find choice_is_correct (question_choices ?q))"
    unfolding r result_of_is_correct key .
  then have ok: "user_answers_map_of S (question_id ?q) \<noteq> None"
    and eq: "user_answers_map_of S (question_id ?q)
             = map_option choice_id (find choice_is_correct (question_choices ?q))"
    by blast+
  from submitted_is_mapped [OF ok eq]
  obtain c where f: "find choice_is_correct (question_choices ?q) = Some c"
    and u: "user_answers_map_of S (question_id ?q) = Some (choice_id c)" by blast
  from f have c_in: "c \<in> set (question_choices ?q)" by (auto dest: find_Some_mem)
  have k: "answer_key_of Q (question_id ?q) = Some (choice_id c)" using key f by simp
  have "qr_user_answer_text (results (grade Q S) ! i) = choice_text c"
    unfolding r using assms(3) c_in
    by (simp add: result_of_def answer_texts_def u text_fold_user_hit)
  moreover have "qr_correct_answer_text (results (grade Q S) ! i) = choice_text c"
    unfolding r using assms(3) c_in
    by (simp add: result_of_def answer_texts_def k text_fold_correct_hit)
  ultimately show ?thesis using f by blast
qed

theorem correct_result_texts_witness:
  "distinct (map question_id example_questions) \<and> (0::nat) < length example_questions \<and>
   distinct (map choice_id (question_choices (example_questions ! 0))) \<and>
   qr_is_correct (results (grade example_questions example_answers) ! 0) \<and>
   qr_user_answer_text (results (grade example_questions example_answers) ! 0) = ''B'' \<and>
   qr_correct_answer_text (results (grade example_questions example_answers) ! 0) = ''B''"
  using correct_result_texts [of example_questions 0 example_answers]
  by (simp add: example_questions_def example_answers_def calculate_score_def get_questions_def
        user_answers_map_of_def answer_key_of_def grade_step_def answer_texts_def text_step_def)

text \<open>
  Claim C10. Answers to questions that are not in the store change nothing: grading a
  submission and grading it with those answers removed give the same quiz result.
\<close>

theorem foreign_answers_ignored:
  "grade Q S = grade Q (filter (\<lambda>a. ua_question_id a \<in> question_id ` set Q) S)"
proof -
  let ?S' = "filter (\<lambda>a. ua_question_id a \<in> question_id ` set Q) S"
  have same: "result_of (user_answers_map_of ?S') (answer_key_of Q) q
              = result_of (user_answers_map_of S) (answer_key_of Q) q" if "q \<in> set Q" for q
  proof (rule result_of_cong)
    from that have "question_id q \<in> question_id ` set Q" by simp
    then show "user_answers_map_of ?S' (question_id q) = user_answers_map_of S (question_id q)"
      by (rule user_answers_map_of_filter [where P = "\<lambda>k. k \<in> question_id ` set Q"])
  qed
  then have "map (result_of (user_answers_map_of ?S') (answer_key_of Q)) Q
             = map (result_of (user_answers_map_of S) (answer_key_of Q)) Q"
    by simp
  moreover have "filter (\<lambda>q. qr_is_correct (result_of (user_answers_map_of ?S') (answer_key_of Q) q)) Q
             = filter (\<lambda>q. qr_is_correct (result_of (user_answers_map_of S) (answer_key_of Q) q)) Q"
    using same by (auto intro: filter_cong)
  ultimately show ?thesis by (simp only: grade_eq)
qed

section \<open>Properties of the safe view\<close>

lemma map_eq_iff_rel:
  "map f xs = map f ys \<longleftrightarrow> list_all2 (\<lambda>x y. f x = f y) xs ys"
proof (induction xs arbitrary: ys)
  case Nil
  show ?case by simp
next
  case (Cons x xs)
  show ?case by (cases ys) (simp_all add: Cons.IH)
qed

lemma map_eq_transfer:
  assumes "\<And>x y. f x = f y \<longleftrightarrow> g x = g y"
  shows "map f xs = map f ys \<longleftrightarrow> map g xs = map g ys"
  by (simp add: map_eq_iff_rel assms)

lemma to_schema_choice_eq_iff:
  "to_schema_choice c = to_schema_choice d \<longleftrightarrow>
     (choice_id c, choice_text c) = (choice_id d, choice_text d)"
  by (auto simp: to_schema_choice_def)

lemma to_schema_question_eq_iff:
  "to_schema_question p = to_schema_question q \<longleftrightarrow> public_part p = public_part q"
proof -
  have "map to_schema_choice (question_choices p) = map to_schema_choice (question_choices q)
        \<longleftrightarrow> map (\<lambda>c. (choice_id c, choice_text c)) (question_choices p)
            = map (\<lambda>c. (choice_id c, choice_text c)) (question_choices q)"
    by (rule map_eq_transfer) (rule to_schema_choice_eq_iff)
  then show ?thesis by (auto simp: to_schema_question_def public_part_def)
qed

lemma public_part_clear_flags: "public_part (clear_flags q) = public_part q"
  by (simp add: public_part_def clear_flags_def comp_def)

text \<open>
  Claim C8. The safe view exposes, for every question, its id, its text and its choices'
  ids and texts, and nothing else: two stores have the same safe view exactly when their
  questions agree, position by position, on these parts. In particular the
  \<^verbatim>\<open>is_correct\<close> flags are not in it: two stores that agree once the flags are erased
  have the same safe view.
\<close>

theorem safe_view_is_public_part:
  "(read_questions \<lparr>session_questions = Q1\<rparr> = read_questions \<lparr>session_questions = Q2\<rparr>
      \<longleftrightarrow> map public_part Q1 = map public_part Q2) \<and>
   (map clear_flags Q1 = map clear_flags Q2 \<longrightarrow>
      read_questions \<lparr>session_questions = Q1\<rparr> = read_questions \<lparr>session_questions = Q2\<rparr>)"
proof -
  have view: "read_questions \<lparr>session_questions = Q1\<rparr> = read_questions \<lparr>session_questions = Q2\<rparr>
      \<longleftrightarrow> map public_part Q1 = map public_part Q2"
    unfolding read_questions_def get_questions_def
    by (simp add: map_eq_transfer [of to_schema_question public_part, OF to_schema_question_eq_iff])
  have "map public_part Q1 = map public_part Q2" if "map clear_flags Q1 = map clear_flags Q2"
  proof -
    have "map public_part Q = map public_part (map clear_flags Q)" for Q
      by (induction Q) (simp_all add: public_part_clear_flags)
    then have "map public_part Q1 = map public_part (map clear_flags Q1)"
      and "map public_part Q2 = map public_part (map clear_flags Q2)" by blast+
    with that show ?thesis by simp
  qed
  with view show ?thesis by blast
qed

theorem safe_view_is_public_part_witness:
  "map clear_flags example_questions = map clear_flags (map clear_flags example_questions) \<and>
   example_questions \<noteq> map clear_flags example_questions \<and>
   read_questions \<lparr>session_questions = example_questions\<rparr>
     = read_questions \<lparr>session_questions = map clear_flags example_questions\<rparr> \<and>
   map public_part example_questions = map public_part (map clear_flags example_questions)"
  using safe_view_is_public_part [of example_questions "map clear_flags example_questions"]
  by (simp add: example_questions_def clear_flags_def public_part_def)

end
